theory Spec2Isabelle
  imports Main
begin

section \<open>The COS client: data model\<close>

text \<open>
  A shallow embedding of \<^verbatim>\<open>client/client.go\<close> (package \<^verbatim>\<open>cosclient\<close>).

  Go strings are byte strings (\<open>string\<close>). A Go \<^verbatim>\<open>error\<close> is rendered by its message:
  an \<^verbatim>\<open>error\<close> return value is a \<open>string option\<close>, \<open>None\<close> being \<^verbatim>\<open>nil\<close>.
  A run-time panic is kept apart from an error return.
\<close>

datatype failure = Error string | Panic string

text \<open>
  \<^verbatim>\<open>time.Time\<close> is an instant, counted in nanoseconds relative to the Unix epoch;
  a \<^verbatim>\<open>time.Duration\<close> is a number of nanoseconds.
\<close>

type_synonym Time = int

definition Minute :: int where
  "Minute = 60 * 1000000000"

definition refreshTime :: int where
  "refreshTime = Minute * 5"

definition time_Unix :: "int \<Rightarrow> Time" where
  "time_Unix sec = sec * 1000000000"

text \<open>The zero value \<^verbatim>\<open>time.Time{}\<close>: January 1 of year 1, 00:00:00 UTC.\<close>

definition zero_Time :: Time where
  "zero_Time = time_Unix (- 62135596800)"

text \<open>
  \<^verbatim>\<open>COSClient\<close>. The field \<^verbatim>\<open>Endpoints map[string]string\<close> (bucket name to URL,
  says its comment) is \<open>None\<close> while the map is \<^verbatim>\<open>nil\<close>. The mutex
  \<^verbatim>\<open>RefreshMutex\<close> has no counterpart: \<open>Refresh\<close> below is one call run from its
  \<^verbatim>\<open>Lock\<close> to its deferred \<^verbatim>\<open>Unlock\<close>.
\<close>

record COSClient =
  APIKey :: string
  IAMEndpoint :: string
  ID :: string
  Token :: string
  Expires :: Time
  Endpoints :: "(string \<rightharpoonup> string) option"

text \<open>One HTTP request as handed to \<^verbatim>\<open>http.Client.Do\<close>. Header names are kept as
  the code passes them to \<^verbatim>\<open>Header.Add\<close>, in the order added.\<close>

record request =
  req_method :: string
  req_url :: string
  req_body :: string
  req_headers :: "(string \<times> string) list"

text \<open>
  \<^verbatim>\<open>COSEndpoints\<close>, the topology: \<^verbatim>\<open>ServiceEndpoints\<close> maps a deployment type, a
  region and a scope to the named hosts of that scope. The innermost map is the list
  of its entries (name and host).
\<close>

type_synonym nameMap = "(string \<times> string) list"

record COSEndpoints =
  ServiceEndpoints :: "string \<rightharpoonup> (string \<rightharpoonup> (string \<rightharpoonup> nameMap))"

text \<open>
  The state of the process that the package's functions share: the package variable
  \<^verbatim>\<open>Endpoints\<close> (\<open>None\<close> is the \<^verbatim>\<open>nil\<close> pointer), the requests sent to the
  network so far, and the number of times the clock has been read.
\<close>

record proc =
  pkg_Endpoints :: "COSEndpoints option"
  sent :: "request list"
  clock_reads :: nat

text \<open>What \<^verbatim>\<open>http.Client.Do\<close> hands back when it returns no error: the status
  code, the status line, and what \<^verbatim>\<open>ioutil.ReadAll(res.Body)\<close> gives (\<open>Inl\<close> its
  error, \<open>Inr\<close> the bytes).\<close>

record http_response =
  StatusCode :: int
  Status :: string
  Body :: "string + string"

text \<open>The anonymous struct that \<^verbatim>\<open>Refresh\<close> decodes the token response into (the
  fields the code reads). \<^verbatim>\<open>Expiration\<close> is an \<^verbatim>\<open>int64\<close> holding seconds since the
  Unix epoch; the model keeps its integer value.\<close>

record token_data =
  Access_token :: string
  Expiration :: int
  ErrorMessage :: string

text \<open>One entry of a bucket listing, \<^verbatim>\<open>BucketListResponse\<close> and \<^verbatim>\<open>BucketList\<close>.\<close>

record Bucket =
  Name :: string
  CreationDate :: string
  LocationConstraint :: string

record BucketListResponse =
  resp_Owner :: "string \<times> string"
  resp_Marker :: string
  resp_Buckets :: "Bucket list"

record BucketList =
  Owner :: "string \<times> string"
  Buckets :: "Bucket list"

text \<open>
  Everything outside the package is a parameter of the model, collected in a record:
  \<^item> \<open>time_Now n\<close>: what the \<open>n\<close>-th reading of \<^verbatim>\<open>time.Now()\<close> returns;
  \<^item> \<open>http_NewRequest method url\<close>: the error of \<^verbatim>\<open>http.NewRequest\<close>, if any;
  \<^item> \<open>http_Do log req\<close>: the outcome of sending \<open>req\<close> after the requests \<open>log\<close>
    (\<open>Inl\<close> is the transport's error);
  \<^item> \<open>url_PathEscape\<close>, \<open>md5_Sum\<close>, \<open>base64_EncodeToString\<close>: the library functions
    of these names;
  \<^item> \<open>fmt_Sprintf\<close>: the rendering of a format string that has no operand;
  \<^item> \<open>json_Unmarshal_token\<close>, \<open>xml_Unmarshal_buckets\<close>: the decoders, at the types
    the code decodes into (\<open>Inl\<close> is the decoder's error);
  \<^item> \<open>json_Unmarshal_endpoints\<close>: the decoder's error together with what it leaves in
    the package variable \<^verbatim>\<open>Endpoints\<close>, which it is given by address.
\<close>

record world =
  time_Now :: "nat \<Rightarrow> Time"
  http_NewRequest :: "string \<Rightarrow> string \<Rightarrow> string option"
  http_Do :: "request list \<Rightarrow> request \<Rightarrow> string + http_response"
  url_PathEscape :: "string \<Rightarrow> string"
  md5_Sum :: "string \<Rightarrow> string"
  base64_EncodeToString :: "string \<Rightarrow> string"
  fmt_Sprintf :: "string \<Rightarrow> string"
  json_Unmarshal_token :: "string \<Rightarrow> string + token_data"
  xml_Unmarshal_buckets :: "string \<Rightarrow> string + BucketListResponse"
  json_Unmarshal_endpoints :: "string \<Rightarrow> string option \<times> COSEndpoints option"

section \<open>NewClient\<close>

text \<open>
  \<^verbatim>\<open>NewClient\<close> (lines 113-136). The call of \<^verbatim>\<open>client.Refresh()\<close> is commented
  out in the source; nothing else touches the process state, which is returned as it
  came.
\<close>

definition NewClient :: "string \<Rightarrow> string \<Rightarrow> proc \<Rightarrow> (string + COSClient) \<times> proc" where
  "NewClient apikey id' s =
     (if apikey = [] then (Inl ''Missing APIKey'', s)
      else if id' = [] then (Inl ''Missing COS Instance ID'', s)
      else (Inr \<lparr>APIKey = apikey,
                 IAMEndpoint = ''https://iam.cloud.ibm.com/identity/token'',
                 ID = id',
                 Token = [],
                 Expires = zero_Time,
                 Endpoints = None\<rparr>, s))"

section \<open>Refresh\<close>

text \<open>
  \<^verbatim>\<open>Refresh\<close> (lines 138-202) returns its error, the client and the process state.
  The clock is read once. \<open>token_request\<close> is the request of lines 147-158. Every
  \<^verbatim>\<open>return\<close> before line 198 leaves the client as it was.
\<close>

definition token_request :: "world \<Rightarrow> COSClient \<Rightarrow> request" where
  "token_request w client =
     (let bodyStr = ''apikey='' @ url_PathEscape w (APIKey client) @ ''&'' @
                    ''response_type=cloud_iam&'' @
                    ''grant_type=urn:ibm:params:oauth:grant-type:apikey''
      in \<lparr>req_method = ''POST'', req_url = IAMEndpoint client, req_body = bodyStr,
          req_headers = [(''Accept'', ''application/json''),
                         (''Content-Type'', ''application/x-www-form-urlencoded'')]\<rparr>)"

definition Refresh :: "world \<Rightarrow> COSClient \<Rightarrow> proc \<Rightarrow> string option \<times> COSClient \<times> proc" where
  "Refresh w client s0 =
     (let now = time_Now w (clock_reads s0);
          s = s0\<lparr>clock_reads := Suc (clock_reads s0)\<rparr>
      in if now + refreshTime < Expires client then (None, client, s)
         else
           case http_NewRequest w ''POST'' (IAMEndpoint client) of
                Some err \<Rightarrow> (Some (''Error creating HTTP client: '' @ err), client, s)
              | None \<Rightarrow>
                  (let req = token_request w client;
                       s' = s\<lparr>sent := sent s @ [req]\<rparr>
                   in case http_Do w (sent s) req of
                       Inl err \<Rightarrow> (Some (''Error getting IAM token: '' @ err), client, s')
                     | Inr res \<Rightarrow>
                         (case Body res of
                            Inl err \<Rightarrow> (Some (''Error http response: '' @ err), client, s')
                          | Inr body \<Rightarrow>
                              (case json_Unmarshal_token w body of
                                 Inl err \<Rightarrow>
                                   (Some (''Error parsing response: '' @ err @ [CHR 0x0A] @ body),
                                    client, s')
                               | Inr data \<Rightarrow>
                                   if ErrorMessage data \<noteq> []
                                   then (Some (fmt_Sprintf w (ErrorMessage data)), client, s')
                                   else (None,
                                         client\<lparr>Token := Access_token data,
                                                Expires := time_Unix (Expiration data)\<rparr>,
                                         s')))))"

section \<open>doHTTP\<close>

text \<open>
  \<^verbatim>\<open>doHTTP\<close> (lines 204-261). Line 207 calls \<^verbatim>\<open>client.Refresh()\<close> as a statement:
  its result is dropped. The arguments of the \<^verbatim>\<open>Debug\<close> calls are evaluated whatever
  the verbosity, and two of them slice a string to its first 15 bytes, which panics on
  a shorter string. \<^verbatim>\<open>res.StatusCode/100 != 2\<close> is the same test with \<open>div\<close>:
  truncating and flooring division differ only below zero, where neither gives 2.
\<close>

definition doHTTP ::
  "world \<Rightarrow> COSClient \<Rightarrow> string \<Rightarrow> string \<Rightarrow> string \<Rightarrow> int \<Rightarrow> (string \<times> string) list \<Rightarrow> proc
     \<Rightarrow> (failure + string) \<times> COSClient \<times> proc" where
  "doHTTP w client0 method path body num headers s0 =
     (case Refresh w client0 s0 of
        (_, client, s) \<Rightarrow>
          (case http_NewRequest w method path of
             Some err \<Rightarrow> (Inl (Error (''Creating HTTP client: '' @ err)), client, s)
           | None \<Rightarrow>
               (if length (''Bearer '' @ Token client) < 15
               then (Inl (Panic ''slice bounds out of range''), client, s)
               else if num > 1 \<and> length (ID client) < 15
               then (Inl (Panic ''slice bounds out of range''), client, s)
               else
                 (let req = \<lparr>req_method = method, req_url = path, req_body = body,
                            req_headers =
                              [(''Authorization'', ''Bearer '' @ Token client)] @
                              (if num > 1 then [(''ibm-service-instance-id'', ID client)] else []) @
                              headers\<rparr>;
                     s' = s\<lparr>sent := sent s @ [req]\<rparr>
                 in case http_Do w (sent s) req of
                      Inl err \<Rightarrow> (Inl (Error err), client, s')
                    | Inr res \<Rightarrow>
                        (case Body res of
                           Inl err \<Rightarrow> (Inl (Error err), client, s')
                         | Inr rbody \<Rightarrow>
                             if StatusCode res div 100 \<noteq> 2
                             then (Inl (Error (if length rbody > 0
                                               then Status res @ '': '' @ rbody
                                               else Status res)), client, s')
                             else (Inr rbody, client, s'))))))"

section \<open>Endpoint resolution\<close>

text \<open>\<^verbatim>\<open>fmt.Errorf(prefix + "%s", err)\<close> on what a callee returned; a panic passes
  through.\<close>

definition Errorf :: "string \<Rightarrow> failure \<Rightarrow> failure" where
  "Errorf prefix f = (case f of Error e \<Rightarrow> Error (prefix @ e) | Panic p \<Rightarrow> Panic p)"

text \<open>
  \<^verbatim>\<open>GetCOSEndpoints\<close> (lines 344-383) returns the pointer held by the package
  variable, fetching the topology when the variable is \<^verbatim>\<open>nil\<close>.
\<close>

definition GetCOSEndpoints :: "world \<Rightarrow> proc \<Rightarrow> (string + COSEndpoints option) \<times> proc" where
  "GetCOSEndpoints w s =
     (if pkg_Endpoints s \<noteq> None then (Inr (pkg_Endpoints s), s)
      else
        let path = ''https://control.cloud-object-storage.cloud.ibm.com/v2/endpoints''
        in case http_NewRequest w ''GET'' path of
             Some err \<Rightarrow> (Inl (''Creating HTTP client: '' @ err), s)
           | None \<Rightarrow>
               (let req = \<lparr>req_method = ''GET'', req_url = path, req_body = [],
                           req_headers = []\<rparr>;
                    s' = s\<lparr>sent := sent s @ [req]\<rparr>
                in case http_Do w (sent s) req of
                     Inl err \<Rightarrow> (Inl err, s')
                   | Inr res \<Rightarrow>
                       (case Body res of
                          Inl err \<Rightarrow> (Inl (''Error reading endpoints: '' @ err), s')
                        | Inr buf \<Rightarrow>
                            (case json_Unmarshal_endpoints w buf of
                               (Some err, v) \<Rightarrow>
                                 (Inl (''Error parsing endpoints: '' @ err),
                                  s'\<lparr>pkg_Endpoints := v\<rparr>)
                             | (None, v) \<Rightarrow> (Inr v, s'\<lparr>pkg_Endpoints := v\<rparr>)))))"

text \<open>\<^verbatim>\<open>ListBuckets\<close> (lines 474-499).\<close>

definition ListBuckets ::
  "world \<Rightarrow> COSClient \<Rightarrow> proc \<Rightarrow> (failure + BucketList) \<times> COSClient \<times> proc" where
  "ListBuckets w client0 s0 =
     (let path = ''https://s3.us.cloud-object-storage.appdomain.cloud'' @ ''?extended''
      in case doHTTP w client0 ''GET'' path [] 2 [] s0 of
           (Inl f, client, s) \<Rightarrow>
             (Inl (Errorf (''ListBuckets/GET('' @ path @ ''): '') f), client, s)
         | (Inr body, client, s) \<Rightarrow>
             (case xml_Unmarshal_buckets w body of
                Inl err \<Rightarrow> (Inl (Error (''Error parsing result: '' @ err)), client, s)
              | Inr buckets \<Rightarrow>
                  (Inr \<lparr>Owner = resp_Owner buckets, Buckets = resp_Buckets buckets\<rparr>,
                   client, s)))"

text \<open>
  \<^verbatim>\<open>strings.Split(s, sep)\<close> for a separator of one byte, as the library computes it:
  cut at the first separator, go on with the rest, and end with what is left.
\<close>

function strings_Split :: "string \<Rightarrow> char \<Rightarrow> string list" where
  "strings_Split s sep =
     (if sep \<in> set s
      then takeWhile (\<lambda>c. c \<noteq> sep) s # strings_Split (tl (dropWhile (\<lambda>c. c \<noteq> sep) s)) sep
      else [s])"
  by pat_completeness auto
termination
proof (relation "measure (\<lambda>(s, sep). length s)")
  show "wf (measure (\<lambda>(s, sep). length s))" by simp
next
  fix s :: string and sep :: char
  assume "sep \<in> set s"
  then have "dropWhile (\<lambda>c. c \<noteq> sep) s \<noteq> []" by (simp add: dropWhile_eq_Nil_conv)
  then have "length (tl (dropWhile (\<lambda>c. c \<noteq> sep) s)) < length (dropWhile (\<lambda>c. c \<noteq> sep) s)"
    by simp
  also have "\<dots> \<le> length s" by (rule length_dropWhile_le)
  finally show "((tl (dropWhile (\<lambda>c. c \<noteq> sep) s), sep), (s, sep)) \<in> measure (\<lambda>(s, sep). length s)"
    by simp
qed

declare strings_Split.simps [simp del]

text \<open>
  Lines 437-442: the loop over the keys of \<^verbatim>\<open>endpoints.ServiceEndpoints["single-site"]\<close>
  finds \<open>reg\<close> exactly when it is a key of that map (no key when the map is missing).
\<close>

definition isSingleSite :: "COSEndpoints \<Rightarrow> string \<Rightarrow> bool" where
  "isSingleSite endpoints reg =
     (case ServiceEndpoints endpoints ''single-site'' of
        None \<Rightarrow> False
      | Some sites \<Rightarrow> sites reg \<noteq> None)"

text \<open>
  Lines 429-448 of \<^verbatim>\<open>GetEndpointForBucket\<close>: from the location constraint to the pair
  \<^verbatim>\<open>(daType, reg)\<close>. \<open>endpoints\<close> is the pointer \<^verbatim>\<open>GetCOSEndpoints\<close> returned; the
  two-part branch reads through it.
\<close>

definition parseLocation :: "COSEndpoints option \<Rightarrow> string \<Rightarrow> failure + string \<times> string" where
  "parseLocation endpoints loc =
     (let parts = strings_Split loc (CHR ''-'')
      in if length parts = 2 then
           (case endpoints of
              None \<Rightarrow> Inl (Panic ''nil pointer dereference'')
            | Some ep \<Rightarrow>
                Inr (if isSingleSite ep (parts ! 0) then ''single-site'' else ''cross-region'',
                     parts ! 0))
         else if length parts = 3 then Inr (''regional'', parts ! 0 @ ''-'' @ parts ! 1)
         else Inl (Error (''Can't split loc: '' @ loc)))"

text \<open>
  \<^verbatim>\<open>endpoints.ServiceEndpoints[daType][reg]["public"]\<close>: a missing key at any level
  gives the \<^verbatim>\<open>nil\<close> map, which has no entry. The innermost map is the list of its
  entries in the order the \<^verbatim>\<open>range\<close> statement of line 454 visits them (an order the
  language leaves open, so it comes with the topology).
\<close>

definition publicNames :: "COSEndpoints \<Rightarrow> string \<Rightarrow> string \<Rightarrow> nameMap" where
  "publicNames endpoints daType reg =
     (case ServiceEndpoints endpoints daType of
        None \<Rightarrow> []
      | Some regs \<Rightarrow>
          (case regs reg of
             None \<Rightarrow> []
           | Some scopes \<Rightarrow> (case scopes ''public'' of None \<Rightarrow> [] | Some names \<Rightarrow> names)))"

text \<open>
  \<^verbatim>\<open>GetEndpointForBucket\<close> (lines 390-472). The loop over the listing returns at the
  first bucket of the given name. In the loop of line 454 the loop variable \<^verbatim>\<open>name\<close>
  hides the parameter \<^verbatim>\<open>name\<close>: the key stored at line 460 is the entry's key \<open>n\<close>.
\<close>

definition GetEndpointForBucket ::
  "world \<Rightarrow> COSClient \<Rightarrow> string \<Rightarrow> proc \<Rightarrow> (failure + string) \<times> COSClient \<times> proc" where
  "GetEndpointForBucket w client0 name s0 =
     (case (case Endpoints client0 of None \<Rightarrow> None | Some m \<Rightarrow> m name) of
        Some url \<Rightarrow> (Inr url, client0, s0)
      | None \<Rightarrow>
          (case GetCOSEndpoints w s0 of
             (Inl err, s1) \<Rightarrow>
               (Inl (Error (''GetEndpointsForBucket/GetCOSEndpoint: '' @ err)), client0, s1)
           | (Inr endpoints, s1) \<Rightarrow>
               (case ListBuckets w client0 s1 of
                  (Inl f, client, s) \<Rightarrow>
                    (Inl (Errorf ''GetEndpointsForBucket/ListBuckets: '' f), client, s)
                | (Inr list, client, s) \<Rightarrow>
                    (case find (\<lambda>bucket. Name bucket = name) (Buckets list) of
                       None \<Rightarrow> (Inl (Error (''Can't find bucket: '' @ name)), client, s)
                     | Some bucket \<Rightarrow>
                         (case parseLocation endpoints (LocationConstraint bucket) of
                            Inl f \<Rightarrow> (Inl f, client, s)
                          | Inr (daType, reg) \<Rightarrow>
                              (case endpoints of
                                 None \<Rightarrow> (Inl (Panic ''nil pointer dereference''), client, s)
                               | Some ep \<Rightarrow>
                                   (case publicNames ep daType reg of
                                      [] \<Rightarrow>
                                        (Inl (Error (''Can't find endpoint for bucket: '' @ name)),
                                         client, s)
                                    | (n, host) # _ \<Rightarrow>
                                        (let url = ''https://'' @ host;
                                             m = (case Endpoints client of
                                                    None \<Rightarrow> Map.empty | Some m \<Rightarrow> m)
                                         in (Inr url,
                                             client\<lparr>Endpoints := Some (m(n \<mapsto> url))\<rparr>,
                                             s)))))))))"

section \<open>DeleteObjects\<close>

text \<open>\<^verbatim>\<open>DeleteObjects\<close> (lines 675-701). The \<^verbatim>\<open>headers\<close> map has one entry.\<close>

definition DeleteObjects ::
  "world \<Rightarrow> COSClient \<Rightarrow> string \<Rightarrow> string list \<Rightarrow> proc \<Rightarrow> failure option \<times> COSClient \<times> proc" where
  "DeleteObjects w client0 bucket names s0 =
     (case GetEndpointForBucket w client0 bucket s0 of
        (Inl f, client, s) \<Rightarrow>
          (Some (Errorf (''Getting getting endpoint('' @ bucket @ ''): '') f), client, s)
      | (Inr svcURL, client, s) \<Rightarrow>
          (let path = svcURL @ ''/'' @ bucket @ ''?delete'';
               body = foldl (\<lambda>body name. body @ ''<Object><Key>'' @ name @ ''</Key></Object>'')
                        ''<Delete>'' names @ ''</Delete>'';
               sum = md5_Sum w body;
               headers = [(''Content-MD5'', base64_EncodeToString w sum)]
           in case doHTTP w client ''POST'' path body 1 headers s of
                (Inl f, client', s') \<Rightarrow>
                  (Some (Errorf (''DELETE/POST error('' @ path @ ''): '') f), client', s')
              | (Inr _, client', s') \<Rightarrow> (None, client', s')))"

section \<open>DeleteBucketContents\<close>

record ObjectMetadata =
  Key :: string
  LastModified :: string
  Size :: int

text \<open>
  The slice expression \<^verbatim>\<open>xs[lo:hi]\<close>: it panics unless \<open>lo \<le> hi\<close> and \<open>hi\<close> is
  within the slice (no path of the loop below asks for more than the length).
\<close>

definition slice :: "'a list \<Rightarrow> nat \<Rightarrow> nat \<Rightarrow> 'a list option" where
  "slice xs lo hi = (if lo \<le> hi \<and> hi \<le> length xs then Some (take (hi - lo) (drop lo xs)) else None)"

text \<open>
  Lines 541-551, one pass of the batching loop from the current \<^verbatim>\<open>start\<close>: the new
  \<^verbatim>\<open>end\<close> (which line 551 also stores in \<^verbatim>\<open>start\<close>) and the keys collected
  in \<^verbatim>\<open>objects\<close>; \<open>None\<close> when the slice expression panics.
\<close>

definition nextBatch :: "ObjectMetadata list \<Rightarrow> nat \<Rightarrow> (nat \<times> string list) option" where
  "nextBatch list start =
     (let size = length list;
          end' = (if start + 1000 > size then size else start + 1000)
      in case slice list start end' of
           None \<Rightarrow> None
         | Some objs \<Rightarrow> Some (end', map Key objs))"

text \<open>
  The loop \<^verbatim>\<open>for end != size\<close> of lines 540-566 with the waiting and the spawning
  left out: the batches it builds, in order.
\<close>

function batches :: "ObjectMetadata list \<Rightarrow> nat \<Rightarrow> nat \<Rightarrow> string list list option" where
  "batches list start end' =
     (if end' \<noteq> length list
      then (case nextBatch list start of
              None \<Rightarrow> None
            | Some (e, objects) \<Rightarrow> map_option ((#) objects) (batches list e e))
      else Some [])"
  by pat_completeness auto
termination
proof (relation "measure (\<lambda>(list, start, end'). if end' = length list then 0
                                               else Suc (length list - start))")
  show "wf (measure (\<lambda>(list, start, end'). if end' = length list then 0
                                          else Suc (length list - start)))"
    by simp
next
  fix list :: "ObjectMetadata list" and start end' :: nat and x2 :: "nat \<times> string list"
    and e :: nat and objects :: "string list"
  assume ne: "end' \<noteq> length list" and nb: "nextBatch list start = Some x2"
    and x2: "(e, objects) = x2"
  from nb x2 have "e = (if start + 1000 > length list then length list else start + 1000)"
    by (auto simp: nextBatch_def Let_def split: option.splits)
  with ne show "((list, e, e), (list, start, end')) \<in>
      measure (\<lambda>(list, start, end'). if end' = length list then 0
                                    else Suc (length list - start))"
    by (auto split: if_splits)
qed

declare batches.simps [simp del]

text \<open>
  The coordinator and its goroutines as threads of one state, every step of a thread
  being one read or write of the shared variables \<^verbatim>\<open>count\<close> and \<^verbatim>\<open>resErr\<close>, or a
  call. A goroutine (lines 558-565) is
  \<^item> \<open>Calling\<close>: in \<^verbatim>\<open>client.DeleteObjects(name, objects)\<close>;
  \<^item> \<open>Failed err\<close>: the call returned \<open>err\<close>, line 563 is next;
  \<^item> \<open>Storing e\<close>: \<^verbatim>\<open>fmt.Errorf\<close> has built \<open>e\<close>, to be stored through \<^verbatim>\<open>pErr\<close>;
  \<^item> \<open>Leaving\<close>: the deferred \<^verbatim>\<open>atomic.AddInt32(&count, -1)\<close> is next;
  \<^item> \<open>Gone\<close>: finished.
  The coordinator is at the loop head (\<open>Loop\<close>, line 540), in the polling loop of line
  553 (\<open>Waiting\<close>), at line 557 (\<open>Adding\<close>), at the \<^verbatim>\<open>go\<close> statement (\<open>Spawning\<close>),
  in the polling loop of line 568 (\<open>Draining\<close>), at line 572 (\<open>Returning\<close>), or has
  returned a value.
\<close>

datatype task = Calling | Failed string | Storing string | Leaving | Gone

datatype coord =
    Loop
  | Waiting "string list"
  | Adding "string list"
  | Spawning "string list"
  | Draining
  | Returning
  | Returned "string option"

record dstate =
  pc :: coord
  start :: nat
  end' :: nat
  tasks :: "(string list \<times> task) list"
  count :: int
  resErr :: "string option"
  panicked :: bool

text \<open>\<^verbatim>\<open>count\<close> is an \<^verbatim>\<open>int32\<close>: additions wrap around.\<close>

definition int32 :: "int \<Rightarrow> int" where
  "int32 x = (x + 2147483648) mod 4294967296 - 2147483648"

text \<open>The verb \<^verbatim>\<open>%s\<close> applied to an \<^verbatim>\<open>error\<close>: its message, and for the \<^verbatim>\<open>nil\<close>
  interface what \<^verbatim>\<open>fmt\<close> prints for it.\<close>

fun fmt_s :: "string option \<Rightarrow> string" where
  "fmt_s None = ''%!s(<nil>)''"
| "fmt_s (Some e) = e"

definition init :: dstate where
  "init = \<lparr>pc = Loop, start = 0, end' = 0, tasks = [], count = 0, resErr = None,
           panicked = False\<rparr>"

fun coord_step :: "ObjectMetadata list \<Rightarrow> dstate \<Rightarrow> dstate" where
  "coord_step list st =
     (case pc st of
        Loop \<Rightarrow>
          if end' st \<noteq> length list
          then (case nextBatch list (start st) of
                  None \<Rightarrow> st\<lparr>panicked := True\<rparr>
                | Some (e, objects) \<Rightarrow> st\<lparr>pc := Waiting objects, start := e, end' := e\<rparr>)
          else st\<lparr>pc := Draining\<rparr>
      | Waiting objects \<Rightarrow> if count st \<ge> 10 then st else st\<lparr>pc := Adding objects\<rparr>
      | Adding objects \<Rightarrow> st\<lparr>pc := Spawning objects, count := int32 (count st + 1)\<rparr>
      | Spawning objects \<Rightarrow> st\<lparr>pc := Loop, tasks := tasks st @ [(objects, Calling)]\<rparr>
      | Draining \<Rightarrow> if count st > 0 then st else st\<lparr>pc := Returning\<rparr>
      | Returning \<Rightarrow> st\<lparr>pc := Returned (resErr st)\<rparr>
      | Returned r \<Rightarrow> st)"

text \<open>
  One step of goroutine \<open>i\<close>. \<open>del objects\<close> is what \<^verbatim>\<open>client.DeleteObjects(name,
  objects)\<close> returns in this run. Line 563 formats \<^verbatim>\<open>resErr\<close>, the shared variable,
  not the \<^verbatim>\<open>err\<close> of line 561.
\<close>

fun task_step :: "(string list \<Rightarrow> failure option) \<Rightarrow> dstate \<Rightarrow> nat \<Rightarrow> dstate" where
  "task_step del st i =
     (if i < length (tasks st) then
        (case tasks st ! i of
           (objects, Calling) \<Rightarrow>
             (case del objects of
                None \<Rightarrow> st\<lparr>tasks := (tasks st)[i := (objects, Leaving)]\<rparr>
              | Some (Error err) \<Rightarrow> st\<lparr>tasks := (tasks st)[i := (objects, Failed err)]\<rparr>
              | Some (Panic p) \<Rightarrow> st\<lparr>panicked := True\<rparr>)
         | (objects, Failed err) \<Rightarrow>
             st\<lparr>tasks := (tasks st)[i := (objects,
                   Storing (''Error deleting bucket contents: '' @ fmt_s (resErr st)))]\<rparr>
         | (objects, Storing e) \<Rightarrow>
             st\<lparr>resErr := Some e, tasks := (tasks st)[i := (objects, Leaving)]\<rparr>
         | (objects, Leaving) \<Rightarrow>
             st\<lparr>count := int32 (count st - 1), tasks := (tasks st)[i := (objects, Gone)]\<rparr>
         | (objects, Gone) \<Rightarrow> st)
      else st)"

text \<open>
  The scheduler picks a thread: \<open>0\<close> is the coordinator, \<open>Suc i\<close> the \<open>i\<close>-th goroutine
  started. A thread that cannot move (it has finished, it does not exist yet, it sleeps
  in a polling loop) leaves the state as it is, and nothing moves after a panic.
\<close>

fun step :: "(string list \<Rightarrow> failure option) \<Rightarrow> ObjectMetadata list \<Rightarrow> dstate \<Rightarrow> nat \<Rightarrow> dstate" where
  "step del list st n =
     (if panicked st then st
      else case n of 0 \<Rightarrow> coord_step list st | Suc i \<Rightarrow> task_step del st i)"

fun run :: "(string list \<Rightarrow> failure option) \<Rightarrow> ObjectMetadata list \<Rightarrow> dstate \<Rightarrow> nat list \<Rightarrow> dstate" where
  "run del list st [] = st"
| "run del list st (n # ns) = run del list (step del list st n) ns"

text \<open>
  \<^verbatim>\<open>DeleteBucketContents\<close> (lines 524-573) under a schedule. \<open>listing\<close> is what
  \<^verbatim>\<open>client.ListObjects(name)\<close> returns. The result is the returned error, a panic, or
  \<open>Unfinished\<close> when the schedule ends before the function returns.
\<close>

datatype outcome = Returns "string option" | Panics | Unfinished

definition DeleteBucketContents ::
  "(failure + ObjectMetadata list) \<Rightarrow> (string list \<Rightarrow> failure option) \<Rightarrow> nat list \<Rightarrow> outcome" where
  "DeleteBucketContents listing del sched =
     (case listing of
        Inl (Panic p) \<Rightarrow> Panics
      | Inl (Error err) \<Rightarrow> Returns (Some (''Error getting bucket contents: '' @ err))
      | Inr list \<Rightarrow>
          if length list = 0 then Returns None
          else (let st = run del list init sched
                in if panicked st then Panics
                   else (case pc st of Returned r \<Rightarrow> Returns r | _ \<Rightarrow> Unfinished)))"

text \<open>What the claims about the run speak of: the goroutines that have not finished,
  and those inside their \<^verbatim>\<open>DeleteObjects\<close> call.\<close>

definition live :: "dstate \<Rightarrow> nat" where
  "live st = length (filter (\<lambda>(objects, t). t \<noteq> Gone) (tasks st))"

definition in_flight :: "dstate \<Rightarrow> nat" where
  "in_flight st = length (filter (\<lambda>(objects, t). t = Calling) (tasks st))"

text \<open>
  The invariant of the counter: \<^verbatim>\<open>count\<close> is the number of unfinished goroutines,
  plus one between line 557 and the \<^verbatim>\<open>go\<close> statement; it never exceeds 10, is below
  10 when line 557 is reached, and is 0 once the last polling loop has been left.
\<close>

definition count_inv :: "dstate \<Rightarrow> bool" where
  "count_inv st =
     (count st = int (live st) + (case pc st of Spawning objects \<Rightarrow> 1 | _ \<Rightarrow> 0)
      \<and> count st \<le> 10
      \<and> (case pc st of
            Adding objects \<Rightarrow> count st < 10
          | Returning \<Rightarrow> count st = 0
          | Returned r \<Rightarrow> count st = 0
          | _ \<Rightarrow> True))"

text \<open>The values line 563 can build: the prefix repeated, around the rendering of
  \<^verbatim>\<open>nil\<close>.\<close>

fun nil_wrapped :: "nat \<Rightarrow> string" where
  "nil_wrapped 0 = fmt_s None"
| "nil_wrapped (Suc k) = ''Error deleting bucket contents: '' @ nil_wrapped k"

definition nil_chain :: "string option \<Rightarrow> bool" where
  "nil_chain r = (case r of None \<Rightarrow> True | Some e \<Rightarrow> (\<exists>k. e = nil_wrapped (Suc k)))"

text \<open>The invariant of the error variable: \<^verbatim>\<open>resErr\<close>, every value about to be
  stored in it and the value returned are \<^verbatim>\<open>nil\<close> or one of those chains.\<close>

definition err_inv :: "dstate \<Rightarrow> bool" where
  "err_inv st =
     (nil_chain (resErr st)
      \<and> (\<forall>(objects, t) \<in> set (tasks st). case t of Storing e \<Rightarrow> nil_chain (Some e) | _ \<Rightarrow> True)
      \<and> (case pc st of Returned r \<Rightarrow> nil_chain r | _ \<Rightarrow> True))"

text \<open>
  The invariant of the batching: \<^verbatim>\<open>start\<close> and \<^verbatim>\<open>end\<close> agree between two passes, and
  the batches handed to goroutines so far, the batch in the coordinator's hands and
  the batches the loop has yet to build make up the batches of the whole listing.
\<close>

fun pending :: "coord \<Rightarrow> string list list" where
  "pending (Waiting objects) = [objects]"
| "pending (Adding objects) = [objects]"
| "pending (Spawning objects) = [objects]"
| "pending _ = []"

definition batch_inv :: "ObjectMetadata list \<Rightarrow> dstate \<Rightarrow> bool" where
  "batch_inv list st =
     (end' st = start st
      \<and> (case batches list (start st) (start st) of
            None \<Rightarrow> False
          | Some rest \<Rightarrow> batches list 0 0 = Some (map fst (tasks st) @ pending (pc st) @ rest))
      \<and> (case pc st of
            Draining \<Rightarrow> start st = length list
          | Returning \<Rightarrow> start st = length list
          | Returned r \<Rightarrow> start st = length list
          | _ \<Rightarrow> True))"

section \<open>Sample inputs\<close>

text \<open>
  A topology with one region of each deployment type, and a world in which every
  request is answered with status 200, the token service issues a token that expires an
  hour after the clock's reading, and the account has one bucket, \<open>mybucket\<close>, with
  location constraint \<open>us-smart\<close>. The digest and the encoding are stand-ins.
\<close>

definition topology0 :: COSEndpoints where
  "topology0 = \<lparr>ServiceEndpoints =
     [''cross-region'' \<mapsto>
        [''us'' \<mapsto> [''public'' \<mapsto> [(''us-geo'', ''s3.us.cloud-object-storage.appdomain.cloud'')]]],
      ''regional'' \<mapsto>
        [''us-south'' \<mapsto>
           [''public'' \<mapsto> [(''us-south'', ''s3.us-south.cloud-object-storage.appdomain.cloud'')]]],
      ''single-site'' \<mapsto>
        [''hkg02'' \<mapsto>
           [''public'' \<mapsto> [(''hkg02'', ''s3.hkg02.cloud-object-storage.appdomain.cloud'')]]]]\<rparr>"

definition world0 :: world where
  "world0 = \<lparr>
     time_Now = (\<lambda>n. time_Unix 1600000000),
     http_NewRequest = (\<lambda>method url. None),
     http_Do = (\<lambda>log req. Inr \<lparr>StatusCode = 200, Status = ''200 OK'', Body = Inr (req_url req)\<rparr>),
     url_PathEscape = (\<lambda>s. s),
     md5_Sum = (\<lambda>b. ''md5<'' @ b @ ''>''),
     base64_EncodeToString = (\<lambda>b. ''base64<'' @ b @ ''>''),
     fmt_Sprintf = (\<lambda>s. s),
     json_Unmarshal_token = (\<lambda>body.
        Inr \<lparr>Access_token = ''eyJraWQiOiIyMDIw'', Expiration = 1600003600, ErrorMessage = []\<rparr>),
     xml_Unmarshal_buckets = (\<lambda>body.
        Inr \<lparr>resp_Owner = (''ad58e4cf'', ''ad58e4cf''), resp_Marker = [],
             resp_Buckets = [\<lparr>Name = ''mybucket'', CreationDate = ''2020-04-22T15:45:29.201Z'',
                              LocationConstraint = ''us-smart''\<rparr>]\<rparr>),
     json_Unmarshal_endpoints = (\<lambda>buf. (None, Some topology0))\<rparr>"

text \<open>The same world with the token service unreachable.\<close>

definition world1 :: world where
  "world1 = world0\<lparr>http_Do := (\<lambda>log req.
     if req_url req = ''https://iam.cloud.ibm.com/identity/token''
     then Inl ''dial tcp: connection refused''
     else Inr \<lparr>StatusCode = 200, Status = ''200 OK'', Body = Inr (req_url req)\<rparr>)\<rparr>"

text \<open>The same world with the token service answering every request with status 500 and
  the body \<open>{}\<close>, which the decoder accepts: it leaves every field of the struct at its
  zero value.\<close>

definition world2 :: world where
  "world2 = world0\<lparr>
     http_Do := (\<lambda>log req.
        Inr \<lparr>StatusCode = 500, Status = ''500 Internal Server Error'', Body = Inr ''{}''\<rparr>),
     json_Unmarshal_token := (\<lambda>body.
        Inr \<lparr>Access_token = [], Expiration = 0, ErrorMessage = []\<rparr>)\<rparr>"

text \<open>The client \<^verbatim>\<open>NewClient\<close> returns, the same client holding a token that expired,
  and the process at its start.\<close>

definition client0 :: COSClient where
  "client0 = \<lparr>APIKey = ''key'', IAMEndpoint = ''https://iam.cloud.ibm.com/identity/token'',
              ID = ''c7f1202e-d7a3-4b92-8ce4-db0b3b372915'', Token = [], Expires = zero_Time,
              Endpoints = None\<rparr>"

definition client1 :: COSClient where
  "client1 = client0\<lparr>Token := ''eyJraWQiOiIyMDE5'', Expires := time_Unix 1500000000\<rparr>"

definition proc0 :: proc where
  "proc0 = \<lparr>pkg_Endpoints = None, sent = [], clock_reads = 0\<rparr>"

text \<open>A bucket listing of one object.\<close>

definition listing1 :: "ObjectMetadata list" where
  "listing1 = [\<lparr>Key = ''file2'', LastModified = ''2020-04-25T12:06:55.310Z'', Size = 11\<rparr>]"



section \<open>Evaluation on the sample inputs\<close>

lemma split_us_smart: "strings_Split ''us-smart'' (CHR ''-'') = [''us'', ''smart'']"
  by code_simp

lemma split_hkg02: "strings_Split ''hkg02-standard'' (CHR ''-'') = [''hkg02'', ''standard'']"
  by code_simp

lemma split_us_south: "strings_Split ''us-south-standard'' (CHR ''-'') = [''us'', ''south'', ''standard'']"
  by code_simp

lemma split_one: "strings_Split ''us'' (CHR ''-'') = [''us'']"
  by code_simp

lemma split_four: "strings_Split ''eu-de-1-standard'' (CHR ''-'') = [''eu'', ''de'', ''1'', ''standard'']"
  by code_simp

lemmas sample_defs = world0_def world1_def topology0_def client0_def client1_def proc0_def
  listing1_def time_Unix_def zero_Time_def refreshTime_def Minute_def

lemmas call_defs = GetEndpointForBucket_def GetCOSEndpoints_def ListBuckets_def doHTTP_def
  Refresh_def token_request_def parseLocation_def isSingleSite_def publicNames_def Errorf_def
  DeleteObjects_def Let_def



section \<open>NewClient and Refresh\<close>

text \<open>
  C10. \<^verbatim>\<open>NewClient(apikey, id)\<close> returns an error if and only if \<open>apikey\<close> or \<open>id\<close> is
  the empty string. It never sends a request (and so exchanges no token): the process
  state is unchanged. A returned client has the empty token and the zero expiry, and
  keeps the key and the instance id it was given.
\<close>

theorem NewClient_error_iff:
  "isl (fst (NewClient apikey id' s)) = (apikey = [] \<or> id' = [])
   \<and> snd (NewClient apikey id' s) = s
   \<and> (\<forall>c. fst (NewClient apikey id' s) = Inr c \<longrightarrow>
         Token c = [] \<and> Expires c = zero_Time \<and> APIKey c = apikey \<and> ID c = id')"
  by (auto simp: NewClient_def split: if_splits)

theorem NewClient_error_iff_witness:
  "\<not> isl (fst (NewClient ''key'' ''instance'' \<lparr>pkg_Endpoints = None, sent = [], clock_reads = 0\<rparr>))
   \<and> fst (NewClient ''key'' ''instance'' \<lparr>pkg_Endpoints = None, sent = [], clock_reads = 0\<rparr>)
     = Inr \<lparr>APIKey = ''key'',
            IAMEndpoint = ''https://iam.cloud.ibm.com/identity/token'',
            ID = ''instance'', Token = [], Expires = zero_Time, Endpoints = None\<rparr>
   \<and> Token \<lparr>APIKey = ''key'',
            IAMEndpoint = ''https://iam.cloud.ibm.com/identity/token'',
            ID = ''instance'', Token = [], Expires = zero_Time, Endpoints = None\<rparr> = []"
  using NewClient_error_iff [of "''key''" "''instance''"
      "\<lparr>pkg_Endpoints = None, sent = [], clock_reads = 0\<rparr>"]
  by (simp add: NewClient_def)

text \<open>
  C7. The refresh window \<^verbatim>\<open>refreshTime\<close> is five minutes. Whenever the stored expiry
  lies after the clock's reading plus the window, \<^verbatim>\<open>Refresh\<close> returns \<^verbatim>\<open>nil\<close>, leaves
  the client (token and expiry included) as it was, and sends no request: only the
  count of clock readings moves.
\<close>

theorem Refresh_fresh_noop:
  "refreshTime = 5 * 60 * 1000000000 \<and>
   (time_Now w (clock_reads s) + refreshTime < Expires client \<longrightarrow>
      Refresh w client s = (None, client, s\<lparr>clock_reads := Suc (clock_reads s)\<rparr>)
      \<and> sent (snd (snd (Refresh w client s))) = sent s)"
  by (simp add: Refresh_def Let_def refreshTime_def Minute_def)

theorem Refresh_fresh_noop_witness:
  "time_Now world0 (clock_reads proc0) + refreshTime < Expires (client1\<lparr>Expires := time_Unix 1600003600\<rparr>)
   \<and> Refresh world0 (client1\<lparr>Expires := time_Unix 1600003600\<rparr>) proc0
       = (None, client1\<lparr>Expires := time_Unix 1600003600\<rparr>, proc0\<lparr>clock_reads := Suc (clock_reads proc0)\<rparr>)"
  using Refresh_fresh_noop [of world0 proc0 "client1\<lparr>Expires := time_Unix 1600003600\<rparr>"]
  by (simp add: sample_defs)

text \<open>
  What the returns of \<^verbatim>\<open>Refresh\<close> do. Let it return \<open>r\<close> and leave the client
  \<open>client'\<close>.
  \<^item> If \<open>r\<close> is an error, the client is unchanged, token and expiry with it.
  \<^item> If \<open>r\<close> is \<^verbatim>\<open>nil\<close>, either the token was fresh and the client is unchanged, or
    there was a response with a readable body that the decoder accepted with an empty
    \<^verbatim>\<open>ErrorMessage\<close>, and the token and the expiry are both those of the decoded
    struct.
  \<^item> When the token is stale and the request could be built, a transport error, an
    unreadable body, a body the decoder rejects and a message reported by the service
    each give an error.
  The status code of the response and the presence of \<^verbatim>\<open>Access_token\<close> are not looked
  at.
\<close>

lemma Refresh_returns:
  assumes "Refresh w client s = (r, client', s')"
  shows "(r \<noteq> None \<longrightarrow> client' = client)
       \<and> (r = None \<longrightarrow>
            (time_Now w (clock_reads s) + refreshTime < Expires client \<and> client' = client)
          \<or> (\<exists>res body data.
                http_Do w (sent s) (token_request w client) = Inr res \<and> Body res = Inr body \<and>
                json_Unmarshal_token w body = Inr data \<and> ErrorMessage data = [] \<and>
                client' = client\<lparr>Token := Access_token data,
                                  Expires := time_Unix (Expiration data)\<rparr>))
       \<and> (\<not> time_Now w (clock_reads s) + refreshTime < Expires client \<and>
          http_NewRequest w ''POST'' (IAMEndpoint client) = None \<longrightarrow>
            (\<forall>e. http_Do w (sent s) (token_request w client) = Inl e \<longrightarrow>
                 r = Some (''Error getting IAM token: '' @ e))
          \<and> (\<forall>res. http_Do w (sent s) (token_request w client) = Inr res \<longrightarrow>
                 (\<forall>e. Body res = Inl e \<longrightarrow> r = Some (''Error http response: '' @ e))
               \<and> (\<forall>body. Body res = Inr body \<longrightarrow>
                     (\<forall>e. json_Unmarshal_token w body = Inl e \<longrightarrow>
                          r = Some (''Error parsing response: '' @ e @ [CHR 0x0A] @ body))
                   \<and> (\<forall>data. json_Unmarshal_token w body = Inr data \<and> ErrorMessage data \<noteq> [] \<longrightarrow>
                          r = Some (fmt_Sprintf w (ErrorMessage data))))))"
  using assms
  by (auto simp: Refresh_def Let_def split: if_splits option.splits sum.splits)

text \<open>
  C6 (the code does otherwise). \<open>client1\<close> holds a token, expired. In \<open>world2\<close> the
  token service answers the exchange with status 500 and the body \<open>{}\<close>: a failed
  exchange, with neither a token nor an error message in the response. \<^verbatim>\<open>Refresh\<close>
  returns \<^verbatim>\<open>nil\<close>, and the stored token is replaced by the empty string and the
  expiry by the Unix epoch.
\<close>

theorem Refresh_accepts_empty_response:
  "Token client1 = ''eyJraWQiOiIyMDE5''
   \<and> Expires client1 = time_Unix 1500000000
   \<and> http_Do world2 [] (token_request world2 client1)
       = Inr \<lparr>StatusCode = 500, Status = ''500 Internal Server Error'', Body = Inr ''{}''\<rparr>
   \<and> Refresh world2 client1 proc0
       = (None, client1\<lparr>Token := [], Expires := time_Unix 0\<rparr>,
          proc0\<lparr>clock_reads := 1, sent := [token_request world2 client1]\<rparr>)"
  by (simp add: sample_defs world2_def Refresh_def token_request_def Let_def)

section \<open>doHTTP\<close>

text \<open>
  C3 (the code does otherwise). In \<open>world1\<close> the token service cannot be reached and
  \<open>client1\<close> holds an expired token: \<^verbatim>\<open>Refresh\<close> returns the error of the exchange,
  and \<^verbatim>\<open>doHTTP\<close>, which calls it, returns the body of a successful \<^verbatim>\<open>GET\<close> sent
  with the expired token. The error reaches no caller.
\<close>

theorem doHTTP_drops_Refresh_error:
  "fst (Refresh world1 client1 proc0) = Some ''Error getting IAM token: dial tcp: connection refused''
   \<and> doHTTP world1 client1 ''GET'' ''https://s3.us.cloud-object-storage.appdomain.cloud/mybucket/file2'' [] 1 [] proc0
     = (Inr ''https://s3.us.cloud-object-storage.appdomain.cloud/mybucket/file2'', client1,
        \<lparr>pkg_Endpoints = None,
         sent = [token_request world1 client1,
                 \<lparr>req_method = ''GET'',
                  req_url = ''https://s3.us.cloud-object-storage.appdomain.cloud/mybucket/file2'',
                  req_body = [],
                  req_headers = [(''Authorization'', ''Bearer eyJraWQiOiIyMDE5'')]\<rparr>],
         clock_reads = 1\<rparr>)"
  by (simp add: sample_defs call_defs)

section \<open>Endpoint resolution\<close>

text \<open>A bucket name found in the client's map is answered from the map: the client
  and the process state are returned as they came, so no request is sent.\<close>

lemma GetEndpointForBucket_cache_hit:
  "Endpoints client = Some m \<Longrightarrow> m name = Some url \<Longrightarrow>
     GetEndpointForBucket w client name s = (Inr url, client, s)"
  by (simp add: GetEndpointForBucket_def)

text \<open>
  C2 (the code does otherwise). In \<open>world0\<close> the first resolution of \<open>mybucket\<close>
  succeeds after three requests (topology, token, bucket listing). The URL is stored
  under \<open>us-geo\<close>, the name of the endpoint, and the map has no entry for \<open>mybucket\<close>;
  the second resolution of \<open>mybucket\<close> sends the bucket listing request again.
\<close>

theorem GetEndpointForBucket_second_call_refetches:
  "case GetEndpointForBucket world0 client0 ''mybucket'' proc0 of
     (r1, c1, s1) \<Rightarrow>
       (case GetEndpointForBucket world0 c1 ''mybucket'' s1 of
          (r2, c2, s2) \<Rightarrow>
            r1 = Inr ''https://s3.us.cloud-object-storage.appdomain.cloud''
          \<and> (case Endpoints c1 of None \<Rightarrow> None | Some m \<Rightarrow> m ''mybucket'') = None
          \<and> (case Endpoints c1 of None \<Rightarrow> None | Some m \<Rightarrow> m ''us-geo'')
               = Some ''https://s3.us.cloud-object-storage.appdomain.cloud''
          \<and> length (sent s1) = 3
          \<and> sent s2 = sent s1 @
               [\<lparr>req_method = ''GET'',
                 req_url = ''https://s3.us.cloud-object-storage.appdomain.cloud?extended'',
                 req_body = [],
                 req_headers = [(''Authorization'', ''Bearer eyJraWQiOiIyMDIw''),
                                (''ibm-service-instance-id'', ''c7f1202e-d7a3-4b92-8ce4-db0b3b372915'')]\<rparr>])"
  by (simp add: sample_defs call_defs split_us_smart)

text \<open>\<open>strings_Split\<close> cuts at every separator: one part more than there are
  separators, no separator inside a part, and the parts joined by the separator give
  the string back.\<close>

lemma split_count: "length (strings_Split s sep) = Suc (count_list s sep)"
proof (induction s sep rule: strings_Split.induct)
  case (1 s sep)
  show ?case
  proof (cases "sep \<in> set s")
    case True
    have "s = takeWhile (\<lambda>c. c \<noteq> sep) s @ dropWhile (\<lambda>c. c \<noteq> sep) s" by simp
    moreover from True obtain r where r: "dropWhile (\<lambda>c. c \<noteq> sep) s = sep # r"
      by (metis (mono_tags, lifting) dropWhile_eq_Nil_conv hd_dropWhile list.exhaust_sel)
    ultimately have s: "s = takeWhile (\<lambda>c. c \<noteq> sep) s @ sep # r" by simp
    have "count_list (takeWhile (\<lambda>c. c \<noteq> sep) s) sep = 0"
      by (metis (mono_tags, lifting) count_list_0_iff set_takeWhileD)
    then have "count_list s sep = Suc (count_list r sep)"
      by (subst s) simp
    with 1 True r show ?thesis by (subst strings_Split.simps) simp
  next
    case False
    then show ?thesis by (subst strings_Split.simps) (simp add: count_list_0_iff)
  qed
qed

lemma split_join: "concat (map (\<lambda>p. sep # p) (strings_Split s sep)) = sep # s"
proof (induction s sep rule: strings_Split.induct)
  case (1 s sep)
  show ?case
  proof (cases "sep \<in> set s")
    case True
    then obtain r where r: "dropWhile (\<lambda>c. c \<noteq> sep) s = sep # r"
      by (metis (mono_tags, lifting) dropWhile_eq_Nil_conv hd_dropWhile list.exhaust_sel)
    have "takeWhile (\<lambda>c. c \<noteq> sep) s @ dropWhile (\<lambda>c. c \<noteq> sep) s = s" by simp
    with r have s: "takeWhile (\<lambda>c. c \<noteq> sep) s @ sep # r = s" by simp
    from 1 True r have "concat (map (\<lambda>p. sep # p) (strings_Split r sep)) = sep # r" by simp
    with True r s show ?thesis by (subst strings_Split.simps) simp
  next
    case False
    then show ?thesis by (subst strings_Split.simps) simp
  qed
qed

lemma split_no_sep: "p \<in> set (strings_Split s sep) \<Longrightarrow> sep \<notin> set p"
proof (induction s sep rule: strings_Split.induct)
  case (1 s sep)
  show ?case
  proof (cases "sep \<in> set s")
    case True
    with 1(2) have "p = takeWhile (\<lambda>c. c \<noteq> sep) s \<or> p \<in> set (strings_Split (tl (dropWhile (\<lambda>c. c \<noteq> sep) s)) sep)"
      by (subst (asm) strings_Split.simps) simp
    then show ?thesis
    proof
      assume "p = takeWhile (\<lambda>c. c \<noteq> sep) s"
      then show ?thesis by (metis (mono_tags, lifting) set_takeWhileD)
    next
      assume "p \<in> set (strings_Split (tl (dropWhile (\<lambda>c. c \<noteq> sep) s)) sep)"
      with 1(1) True show ?thesis by simp
    qed
  next
    case False
    with 1(2) have "p = s" by (subst (asm) strings_Split.simps) simp
    with False show ?thesis by simp
  qed
qed

text \<open>
  C4. Splitting the location constraint at \<open>-\<close> gives one part more than it has dashes.
  With a topology at hand:
  \<^item> two parts, the first not a key of the topology's \<open>single-site\<close> map: type
    \<open>cross-region\<close>, region the first part;
  \<^item> two parts, the first a key of that map: type \<open>single-site\<close>, region the first
    part;
  \<^item> three parts: type \<open>regional\<close>, region the first two parts joined by \<open>-\<close>;
  \<^item> any other number of parts: the error \<^verbatim>\<open>Can't split loc\<close>, the parse failure.
\<close>

theorem parseLocation_shapes:
  "length (strings_Split loc (CHR ''-'')) = Suc (count_list loc (CHR ''-''))
   \<and> (length (strings_Split loc (CHR ''-'')) = 2 \<and> \<not> isSingleSite ep (strings_Split loc (CHR ''-'') ! 0) \<longrightarrow>
        parseLocation (Some ep) loc = Inr (''cross-region'', strings_Split loc (CHR ''-'') ! 0))
   \<and> (length (strings_Split loc (CHR ''-'')) = 2 \<and> isSingleSite ep (strings_Split loc (CHR ''-'') ! 0) \<longrightarrow>
        parseLocation (Some ep) loc = Inr (''single-site'', strings_Split loc (CHR ''-'') ! 0))
   \<and> (length (strings_Split loc (CHR ''-'')) = 3 \<longrightarrow>
        parseLocation (Some ep) loc =
          Inr (''regional'', strings_Split loc (CHR ''-'') ! 0 @ ''-'' @ strings_Split loc (CHR ''-'') ! 1))
   \<and> (length (strings_Split loc (CHR ''-'')) \<noteq> 2 \<and> length (strings_Split loc (CHR ''-'')) \<noteq> 3 \<longrightarrow>
        parseLocation (Some ep) loc = Inl (Error (''Can't split loc: '' @ loc)))"
  by (simp add: parseLocation_def Let_def split_count)

theorem parseLocation_shapes_witness:
  "parseLocation (Some topology0) ''us-smart'' = Inr (''cross-region'', ''us'')
   \<and> parseLocation (Some topology0) ''hkg02-standard'' = Inr (''single-site'', ''hkg02'')
   \<and> parseLocation (Some topology0) ''us-south-standard'' = Inr (''regional'', ''us-south'')
   \<and> parseLocation (Some topology0) ''us'' = Inl (Error ''Can't split loc: us'')
   \<and> parseLocation (Some topology0) ''eu-de-1-standard'' = Inl (Error ''Can't split loc: eu-de-1-standard'')"
  using parseLocation_shapes [of "''us-smart''" topology0]
    parseLocation_shapes [of "''hkg02-standard''" topology0]
    parseLocation_shapes [of "''us-south-standard''" topology0]
    parseLocation_shapes [of "''us''" topology0]
    parseLocation_shapes [of "''eu-de-1-standard''" topology0]
  by (simp add: split_us_smart split_hkg02 split_us_south split_one split_four
        isSingleSite_def topology0_def)

section \<open>DeleteObjects\<close>





section \<open>DeleteBucketContents: the batches\<close>

lemma nextBatch_Some:
  assumes "lo < length list"
  shows "nextBatch list lo =
           Some (min (lo + 1000) (length list),
                 map Key (take (min 1000 (length list - lo)) (drop lo list)))"
  using assms by (auto simp: nextBatch_def slice_def Let_def min_def)

lemma batch_sizes_step:
  "0 < n \<Longrightarrow> replicate (n div 1000) (1000::nat) @ (if n mod 1000 = 0 then [] else [n mod 1000])
     = min 1000 n # (replicate ((n - min 1000 n) div 1000) 1000 @
          (if (n - min 1000 n) mod 1000 = 0 then [] else [(n - min 1000 n) mod 1000]))"
proof (cases "n < 1000")
  case True
  assume "0 < n"
  with True show ?thesis by (simp add: min_def)
next
  case False
  then have ge: "1000 \<le> n" by simp
  then have d: "n div 1000 = Suc ((n - 1000) div 1000)"
    by (simp add: le_div_geq)
  from ge have m: "n mod 1000 = (n - 1000) mod 1000"
    by (simp add: le_mod_geq)
  from ge d m show ?thesis by (simp add: min_def)
qed

lemma batches_from:
  assumes "lo \<le> length list"
  shows "\<exists>bs. batches list lo lo = Some bs
            \<and> concat bs = map Key (drop lo list)
            \<and> (\<forall>b \<in> set bs. b \<noteq> [] \<and> length b \<le> 1000)
            \<and> map length bs = replicate ((length list - lo) div 1000) 1000 @
                 (if (length list - lo) mod 1000 = 0 then []
                  else [(length list - lo) mod 1000])"
  using assms
proof (induction "length list - lo" arbitrary: lo rule: less_induct)
  case less
  show ?case
  proof (cases "lo = length list")
    case True
    have "batches list lo lo = Some []"
      by (subst batches.simps) (simp add: True)
    with True show ?thesis by simp
  next
    case False
    with less.prems have lt: "lo < length list" by simp
    define n where "n = length list - lo"
    define k where "k = min 1000 n"
    define e where "e = lo + k"
    define objects where "objects = map Key (take k (drop lo list))"
    have n0: "0 < n" using lt by (simp add: n_def)
    have k0: "0 < k" "k \<le> 1000" "k \<le> n" using n0 by (simp_all add: k_def)
    have e_eq: "e = min (lo + 1000) (length list)" using lt by (simp add: e_def k_def n_def)
    have nb: "nextBatch list lo = Some (e, objects)"
      using lt by (simp only: nextBatch_Some e_eq objects_def k_def n_def)
    have e_le: "e \<le> length list" using k0 lt by (simp add: e_def n_def)
    have rest: "length list - e = n - k" by (simp add: e_def n_def)
    have "length list - e < length list - lo" using k0 lt by (simp add: e_def n_def)
    from less.hyps [OF this e_le] obtain bs where
      bs1: "batches list e e = Some bs" and bs2: "concat bs = map Key (drop e list)" and
      bs3: "\<forall>b \<in> set bs. b \<noteq> [] \<and> length b \<le> 1000" and
      bs4: "map length bs = replicate ((length list - e) div 1000) 1000 @
                 (if (length list - e) mod 1000 = 0 then [] else [(length list - e) mod 1000])"
      by blast
    have b: "batches list lo lo = Some (objects # bs)"
      by (subst batches.simps) (simp add: False nb bs1)
    have "drop e list = drop k (drop lo list)" by (simp add: e_def add.commute)
    then have "concat (objects # bs) = map Key (take k (drop lo list) @ drop k (drop lo list))"
      using bs2 by (simp add: objects_def)
    then have c: "concat (objects # bs) = map Key (drop lo list)"
      by (simp only: append_take_drop_id)
    have lo': "length objects = k"
      using k0 by (simp add: objects_def n_def)
    have o: "objects \<noteq> [] \<and> length objects \<le> 1000"
      using lo' k0 by auto
    have "map length (objects # bs) = k # (replicate ((n - k) div 1000) 1000 @
                 (if (n - k) mod 1000 = 0 then [] else [(n - k) mod 1000]))"
      using bs4 lo' rest by simp
    also have "\<dots> = replicate (n div 1000) 1000 @ (if n mod 1000 = 0 then [] else [n mod 1000])"
      unfolding k_def by (rule batch_sizes_step [OF n0, symmetric])
    finally have sz: "map length (objects # bs) = replicate ((length list - lo) div 1000) 1000 @
                 (if (length list - lo) mod 1000 = 0 then []
                  else [(length list - lo) mod 1000])"
      by (simp only: n_def)
    from b c o bs3 sz show ?thesis by simp
  qed
qed

text \<open>
  C5. For every listing (the empty one included) the loop builds batches which,
  put end to end, are the keys of the listing in listing order: contiguous, every key
  once. No batch is empty and none has more than 1000 keys; all batches have 1000
  keys but the last, which has the remainder. A listing of 2500 keys gives three
  batches, of 1000, 1000 and 500 keys.
\<close>

theorem batches_partition:
  "\<exists>bs. batches list 0 0 = Some bs
      \<and> concat bs = map Key list
      \<and> (\<forall>b \<in> set bs. b \<noteq> [] \<and> length b \<le> 1000)
      \<and> map length bs = replicate (length list div 1000) 1000 @
            (if length list mod 1000 = 0 then [] else [length list mod 1000])
      \<and> (length list = 2500 \<longrightarrow> map length bs = [1000, 1000, 500])"
proof -
  have "0 \<le> length list" by simp
  from batches_from [OF this] obtain bs where
    bs1: "batches list 0 0 = Some bs" and bs2: "concat bs = map Key (drop 0 list)" and
    bs3: "\<forall>b \<in> set bs. b \<noteq> [] \<and> length b \<le> 1000" and
    bs4: "map length bs = replicate ((length list - 0) div 1000) 1000 @
            (if (length list - 0) mod 1000 = 0 then [] else [(length list - 0) mod 1000])"
    by blast
  have bs4': "map length bs = replicate (length list div 1000) 1000 @
            (if length list mod 1000 = 0 then [] else [length list mod 1000])"
    using bs4 by (simp only: diff_zero)
  have r: "replicate 2 (1000::nat) = [1000, 1000]"
    by (simp add: numeral_2_eq_2)
  have d: "(2500::nat) div 1000 = 2" and m: "(2500::nat) mod 1000 = 500" by simp_all
  have "length list = 2500 \<longrightarrow> map length bs = [1000, 1000, 500]"
  proof
    assume "length list = 2500"
    with bs4' have "map length bs = replicate 2 1000 @ [500]"
      by (simp only: d m) simp
    with r show "map length bs = [1000, 1000, 500]" by simp
  qed
  with bs1 bs2 bs3 bs4' show ?thesis by simp
qed


theorem batches_partition_witness:
  "\<exists>bs. batches (replicate 2500 \<lparr>Key = ''file2'', LastModified = [], Size = 11\<rparr>) 0 0 = Some bs
       \<and> concat bs = map Key (replicate 2500 \<lparr>Key = ''file2'', LastModified = [], Size = 11\<rparr>)
       \<and> map length bs = [1000, 1000, 500]"
proof -
  define list where "list = replicate 2500 \<lparr>Key = ''file2'', LastModified = [], Size = 11\<rparr>"
  have len: "length list = 2500" unfolding list_def by (rule length_replicate)
  obtain bs where h: "batches list 0 0 = Some bs
      \<and> concat bs = map Key list
      \<and> (\<forall>b \<in> set bs. b \<noteq> [] \<and> length b \<le> 1000)
      \<and> map length bs = replicate (length list div 1000) 1000 @
            (if length list mod 1000 = 0 then [] else [length list mod 1000])
      \<and> (length list = 2500 \<longrightarrow> map length bs = [1000, 1000, 500])"
    using batches_partition [of list] ..
  from h have h1: "batches list 0 0 = Some bs" by (rule conjunct1)
  from h have h2: "concat bs = map Key list" by (elim conjE)
  from h have "length list = 2500 \<longrightarrow> map length bs = [1000, 1000, 500]" by (elim conjE)
  then have h3: "map length bs = [1000, 1000, 500]" using len by (rule mp)
  from h1 h2 h3 have "batches list 0 0 = Some bs \<and> concat bs = map Key list
            \<and> map length bs = [1000, 1000, 500]"
    by (intro conjI)
  then have "\<exists>bs. batches list 0 0 = Some bs \<and> concat bs = map Key list
            \<and> map length bs = [1000, 1000, 500]" by (rule exI)
  then show ?thesis unfolding list_def .
qed

section \<open>DeleteBucketContents: the counter\<close>

lemma int32_id: "- 2147483648 \<le> x \<Longrightarrow> x < 2147483648 \<Longrightarrow> int32 x = x"
  by (simp add: int32_def)

lemma filter_update_length:
  "i < length xs \<Longrightarrow>
     length (filter P (xs[i := y])) + (if P (xs ! i) then 1 else 0)
       = length (filter P xs) + (if P y then 1 else 0)"
proof (induction xs arbitrary: i)
  case Nil
  then show ?case by simp
next
  case (Cons x xs)
  then show ?case by (cases i) auto
qed

lemma live_update:
  assumes "i < length (tasks st)" and "tasks st ! i = (objects, t)"
    and "tasks st' = (tasks st)[i := (objects, t')]"
  shows "int (live st') = int (live st) - (if t = Gone then 0 else 1) + (if t' = Gone then 0 else 1)"
  using filter_update_length [OF assms(1), of "\<lambda>(objects, t). t \<noteq> Gone" "(objects, t')"]
    assms(2,3)
  by (auto simp: live_def split: if_splits)

lemma live_pos:
  assumes "i < length (tasks st)" and "tasks st ! i = (objects, t)" and "t \<noteq> Gone"
  shows "0 < live st"
proof -
  have "tasks st ! i \<in> set (tasks st)" using assms(1) by (rule nth_mem)
  then have "tasks st ! i \<in> set (filter (\<lambda>(objects, t). t \<noteq> Gone) (tasks st))"
    using assms(2,3) by simp
  then show ?thesis unfolding live_def by (metis length_pos_if_in_set)
qed

lemma count_inv_init: "count_inv init"
  by (simp add: count_inv_def init_def live_def)

lemma count_inv_coord: "count_inv st \<Longrightarrow> count_inv (coord_step list st)"
  by (cases "pc st")
     (auto simp: count_inv_def live_def int32_id split: option.splits)

lemma count_inv_task:
  assumes "count_inv st"
  shows "count_inv (task_step del st i)"
proof (cases "i < length (tasks st)")
  case False
  with assms show ?thesis by simp
next
  case lt: True
  obtain objects t where ti: "tasks st ! i = (objects, t)" by (cases "tasks st ! i")
  have lu: "int (live st') = int (live st) - (if t = Gone then 0 else 1) + (if t' = Gone then 0 else 1)"
    if "tasks st' = (tasks st)[i := (objects, t')]" for st' t'
    using lt ti that by (rule live_update)
  show ?thesis
  proof (cases t)
    case Calling
    show ?thesis
    proof (cases "del objects")
      case None
      then have ts: "task_step del st i = st\<lparr>tasks := (tasks st)[i := (objects, Leaving)]\<rparr>"
        using lt ti Calling by simp
      from lu [of "task_step del st i" Leaving] ts Calling
      have "live (task_step del st i) = live st" by simp
      with assms ts show ?thesis
        by (auto simp: count_inv_def split: coord.splits)
    next
      case (Some f)
      show ?thesis
      proof (cases f)
        case (Error err)
        then have ts: "task_step del st i = st\<lparr>tasks := (tasks st)[i := (objects, Failed err)]\<rparr>"
          using lt ti Calling Some by simp
        from lu [of "task_step del st i" "Failed err"] ts Calling
        have "live (task_step del st i) = live st" by simp
        with assms ts show ?thesis
          by (auto simp: count_inv_def split: coord.splits)
      next
        case (Panic p)
        then have ts: "task_step del st i = st\<lparr>panicked := True\<rparr>"
          using lt ti Calling Some by simp
        with assms show ?thesis
          by (auto simp: count_inv_def live_def split: coord.splits)
      qed
    qed
  next
    case (Failed err)
    then have ts: "task_step del st i = st\<lparr>tasks := (tasks st)[i := (objects,
                   Storing (''Error deleting bucket contents: '' @ fmt_s (resErr st)))]\<rparr>"
      using lt ti by simp
    from lu [of "task_step del st i"
        "Storing (''Error deleting bucket contents: '' @ fmt_s (resErr st))"] ts Failed
    have "live (task_step del st i) = live st" by simp
    with assms ts show ?thesis
      by (auto simp: count_inv_def split: coord.splits)
  next
    case (Storing e)
    then have ts: "task_step del st i =
        st\<lparr>resErr := Some e, tasks := (tasks st)[i := (objects, Leaving)]\<rparr>"
      using lt ti by simp
    from lu [of "task_step del st i" Leaving] ts Storing
    have "live (task_step del st i) = live st" by simp
    with assms ts show ?thesis
      by (auto simp: count_inv_def split: coord.splits)
  next
    case Leaving
    then have ts: "task_step del st i =
        st\<lparr>count := int32 (count st - 1), tasks := (tasks st)[i := (objects, Gone)]\<rparr>"
      using lt ti by simp
    from live_pos [OF lt ti] Leaving have lp: "0 < live st" by simp
    with assms have c: "0 < count st" "count st \<le> 10"
      by (auto simp: count_inv_def split: coord.splits)
    then have i32: "int32 (count st - 1) = count st - 1" by (simp add: int32_id)
    from lu [of "task_step del st i" Gone] ts Leaving
    have "int (live (task_step del st i)) = int (live st) - 1" by simp
    with assms ts i32 lp show ?thesis
      by (auto simp: count_inv_def split: coord.splits)
  next
    case Gone
    with assms lt ti show ?thesis by simp
  qed
qed

lemma count_inv_step: "count_inv st \<Longrightarrow> count_inv (step del list st n)"
  by (cases n) (simp_all add: count_inv_coord count_inv_task del: coord_step.simps task_step.simps)

lemma count_inv_run: "count_inv st \<Longrightarrow> count_inv (run del list st sched)"
  by (induction sched arbitrary: st) (simp_all add: count_inv_step del: step.simps)

lemma filter_length_mono:
  "(\<And>x. P x \<Longrightarrow> Q x) \<Longrightarrow> length (filter P xs) \<le> length (filter Q xs)"
  by (induction xs) auto

lemma in_flight_le_live: "in_flight st \<le> live st"
  unfolding in_flight_def live_def by (rule filter_length_mono) auto

lemma live_0_Gone: "live st = 0 \<Longrightarrow> \<forall>(objects, t) \<in> set (tasks st). t = Gone"
  by (auto simp: live_def filter_empty_conv)

lemma nextBatch_listing1: "nextBatch listing1 0 = Some (1, [''file2''])"
  by (simp add: nextBatch_def slice_def listing1_def)

lemma length_listing1: "length listing1 = 1"
  by (simp add: listing1_def)

lemma int32_small: "int32 0 = 0" "int32 1 = 1"
  by (simp_all add: int32_def)

lemmas run_defs = init_def nextBatch_listing1 length_listing1 int32_small

lemma run_listing1_ok:
  "run (\<lambda>objects. None) listing1 init [0, 0, 0, 0, 0, 1, 1, 0, 0]
     = \<lparr>pc = Returned None, start = 1, end' = 1, tasks = [([''file2''], Gone)], count = 0,
        resErr = None, panicked = False\<rparr>"
  by (simp add: run_defs)

text \<open>
  C9. Under every schedule and whatever the batch deletions return, the state reached
  satisfies the invariant of the counter, so that at most 10 goroutines are inside
  \<^verbatim>\<open>DeleteObjects\<close>; and once the coordinator has returned, every goroutine it
  started has finished.
\<close>

theorem DeleteBucketContents_cap:
  "count_inv (run del list init sched)
   \<and> in_flight (run del list init sched) \<le> 10
   \<and> (\<forall>r. pc (run del list init sched) = Returned r \<longrightarrow>
         (\<forall>(objects, t) \<in> set (tasks (run del list init sched)). t = Gone))"
proof -
  define st where "st = run del list init sched"
  have inv: "count_inv st" unfolding st_def by (rule count_inv_run [OF count_inv_init])
  then have "int (live st) \<le> 10" by (auto simp: count_inv_def split: coord.splits)
  with in_flight_le_live [of st] have a: "in_flight st \<le> 10" by simp
  have b: "\<forall>(objects, t) \<in> set (tasks st). t = Gone" if "pc st = Returned r" for r
  proof -
    from inv that have "live st = 0" by (simp add: count_inv_def)
    then show ?thesis by (rule live_0_Gone)
  qed
  from inv a b show ?thesis unfolding st_def by blast
qed

theorem DeleteBucketContents_cap_witness:
  "pc (run (\<lambda>objects. None) listing1 init [0, 0, 0, 0, 0, 1, 1, 0, 0]) = Returned None
   \<and> tasks (run (\<lambda>objects. None) listing1 init [0, 0, 0, 0, 0, 1, 1, 0, 0]) = [([''file2''], Gone)]
   \<and> in_flight (run (\<lambda>objects. None) listing1 init [0, 0, 0, 0, 0, 1, 1, 0, 0]) \<le> 10"
  using DeleteBucketContents_cap [of "\<lambda>objects. None" listing1 "[0, 0, 0, 0, 0, 1, 1, 0, 0]"]
  unfolding run_listing1_ok by (simp add: in_flight_def)

section \<open>DeleteBucketContents: the error returned\<close>

text \<open>
  C1 (the code does otherwise). The bucket holds one object and its batch deletion
  fails with \<open>503 Service Unavailable\<close>. The coordinator builds the batch, starts the
  goroutine and waits for it; the goroutine formats \<^verbatim>\<open>resErr\<close>, which is still \<^verbatim>\<open>nil\<close>,
  and the error returned does not mention the failure of the batch.
\<close>

theorem DeleteBucketContents_loses_cause:
  "DeleteBucketContents (Inr listing1) (\<lambda>objects. Some (Error ''503 Service Unavailable''))
       [0, 0, 0, 0, 0, 1, 1, 1, 1, 0, 0]
     = Returns (Some ''Error deleting bucket contents: %!s(<nil>)'')"
  by (simp add: DeleteBucketContents_def run_defs Let_def)

text \<open>Whatever the listing, the failures and the schedule, the error returned is
  \<^verbatim>\<open>nil\<close> or the prefix, repeated, around the rendering of \<^verbatim>\<open>nil\<close>: the message of
  a failed batch never enters it.\<close>

lemma nil_chain_wrap:
  assumes "nil_chain r"
  shows "nil_chain (Some (''Error deleting bucket contents: '' @ fmt_s r))"
proof -
  have "\<exists>k. fmt_s r = nil_wrapped k"
  proof (cases r)
    case None
    then have "fmt_s r = nil_wrapped 0" by simp
    then show ?thesis by (rule exI)
  next
    case (Some e)
    with assms obtain k where "e = nil_wrapped (Suc k)" by (auto simp: nil_chain_def)
    with Some have "fmt_s r = nil_wrapped (Suc k)" by simp
    then show ?thesis by (rule exI)
  qed
  then obtain k where "fmt_s r = nil_wrapped k" ..
  then have "''Error deleting bucket contents: '' @ fmt_s r = nil_wrapped (Suc k)" by simp
  then have "\<exists>k. ''Error deleting bucket contents: '' @ fmt_s r = nil_wrapped (Suc k)"
    by (rule exI)
  then show ?thesis unfolding nil_chain_def by simp
qed

lemma err_inv_init: "err_inv init"
  by (simp add: err_inv_def init_def nil_chain_def)

lemma err_inv_coord: "err_inv st \<Longrightarrow> err_inv (coord_step list st)"
  by (cases "pc st") (auto simp: err_inv_def split: option.splits)

lemma err_inv_update:
  assumes "\<forall>(objects, t) \<in> set ts. case t of Storing e \<Rightarrow> nil_chain (Some e) | _ \<Rightarrow> True"
    and "case t' of Storing e \<Rightarrow> nil_chain (Some e) | _ \<Rightarrow> True"
  shows "\<forall>(objects, t) \<in> set (ts[i := (objects', t')]). case t of Storing e \<Rightarrow> nil_chain (Some e) | _ \<Rightarrow> True"
proof -
  have "set (ts[i := (objects', t')]) \<subseteq> insert (objects', t') (set ts)"
    by (rule set_update_subset_insert)
  with assms show ?thesis by auto
qed

lemma err_inv_task:
  assumes "err_inv st"
  shows "err_inv (task_step del st i)"
proof (cases "i < length (tasks st)")
  case False
  with assms show ?thesis by simp
next
  case lt: True
  obtain objects t where ti: "tasks st ! i = (objects, t)" by (cases "tasks st ! i")
  from lt have "tasks st ! i \<in> set (tasks st)" by (rule nth_mem)
  with ti assms have tt: "case t of Storing e \<Rightarrow> nil_chain (Some e) | _ \<Rightarrow> True"
    by (auto simp: err_inv_def)
  from assms have all: "\<forall>(objects, t) \<in> set (tasks st). case t of Storing e \<Rightarrow> nil_chain (Some e) | _ \<Rightarrow> True"
    and nr: "nil_chain (resErr st)" and rr: "case pc st of Returned r \<Rightarrow> nil_chain r | _ \<Rightarrow> True"
    by (simp_all add: err_inv_def)
  show ?thesis
  proof (cases t)
    case Calling
    show ?thesis
    proof (cases "del objects")
      case None
      with lt ti Calling nr rr err_inv_update [OF all, of Leaving i objects]
      show ?thesis by (simp add: err_inv_def)
    next
      case (Some f)
      show ?thesis
      proof (cases f)
        case (Error err)
        with Some lt ti Calling nr rr err_inv_update [OF all, of "Failed err" i objects]
        show ?thesis by (simp add: err_inv_def)
      next
        case (Panic p)
        with Some lt ti Calling assms show ?thesis by (simp add: err_inv_def)
      qed
    qed
  next
    case (Failed err)
    with lt ti nr rr nil_chain_wrap [OF nr]
      err_inv_update [OF all, of "Storing (''Error deleting bucket contents: '' @ fmt_s (resErr st))" i objects]
    show ?thesis by (simp add: err_inv_def)
  next
    case (Storing e)
    with lt ti tt rr err_inv_update [OF all, of Leaving i objects]
    show ?thesis by (simp add: err_inv_def)
  next
    case Leaving
    with lt ti nr rr err_inv_update [OF all, of Gone i objects]
    show ?thesis by (simp add: err_inv_def)
  next
    case Gone
    with assms lt ti show ?thesis by simp
  qed
qed

lemma err_inv_run: "err_inv st \<Longrightarrow> err_inv (run del list st sched)"
  by (induction sched arbitrary: st)
     (simp_all add: err_inv_coord err_inv_task del: coord_step.simps task_step.simps split: nat.splits)

lemma DeleteBucketContents_error_is_nil_chain:
  assumes "DeleteBucketContents (Inr list) del sched = Returns r"
  shows "nil_chain r"
proof (cases "length list = 0")
  case True
  with assms show ?thesis by (simp add: DeleteBucketContents_def nil_chain_def)
next
  case False
  have "err_inv (run del list init sched)" by (rule err_inv_run [OF err_inv_init])
  moreover from assms False have "pc (run del list init sched) = Returned r"
    by (auto simp: DeleteBucketContents_def Let_def split: if_splits coord.splits)
  ultimately show ?thesis by (simp add: err_inv_def)
qed

text \<open>When the coordinator returns, the goroutines it has started are, in order, the
  batches of the whole listing (and by the invariant of the counter all have
  finished).\<close>

lemma batches_end: "batches list (length list) (length list) = Some []"
  by (subst batches.simps) simp

lemma batches_unfold:
  "e \<noteq> length list \<Longrightarrow>
     batches list lo e =
       (case nextBatch list lo of
          None \<Rightarrow> None
        | Some (e', objects) \<Rightarrow> map_option ((#) objects) (batches list e' e'))"
  by (subst batches.simps) simp

lemma batches_total: "batches list 0 0 \<noteq> None"
  using batches_from [of 0 list] by auto

lemma batch_inv_init: "batch_inv list init"
  using batches_total [of list] by (auto simp: batch_inv_def init_def)

lemma batch_inv_coord:
  assumes "batch_inv list st"
  shows "batch_inv list (coord_step list st)"
proof (cases "pc st")
  case Loop
  from assms obtain rest where e: "end' st = start st"
    and r: "batches list (start st) (start st) = Some rest"
    and a: "batches list 0 0 = Some (map fst (tasks st) @ rest)"
    by (auto simp: batch_inv_def Loop split: option.splits)
  show ?thesis
  proof (cases "start st = length list")
    case True
    with Loop e have cs: "coord_step list st = st\<lparr>pc := Draining\<rparr>" by simp
    from r a True have "batches list 0 0 = Some (map fst (tasks st))" by (simp add: batches_end)
    with True e show ?thesis unfolding cs by (simp add: batch_inv_def batches_end)
  next
    case False
    from r batches_unfold [OF False, of "start st"]
    obtain e' objects rest' where nb: "nextBatch list (start st) = Some (e', objects)"
      and r': "batches list e' e' = Some rest'" and rest: "rest = objects # rest'"
      by (auto split: option.splits)
    from Loop False e nb have cs: "coord_step list st = st\<lparr>pc := Waiting objects, start := e', end' := e'\<rparr>"
      by simp
    show ?thesis unfolding cs using a r' rest by (simp add: batch_inv_def)
  qed
next
  case (Waiting objects)
  with assms show ?thesis by (auto simp: batch_inv_def split: option.splits)
next
  case (Adding objects)
  with assms show ?thesis by (auto simp: batch_inv_def split: option.splits)
next
  case (Spawning objects)
  with assms show ?thesis by (auto simp: batch_inv_def split: option.splits)
next
  case Draining
  with assms show ?thesis by (auto simp: batch_inv_def split: option.splits)
next
  case Returning
  with assms show ?thesis by (auto simp: batch_inv_def split: option.splits)
next
  case (Returned r)
  with assms show ?thesis by simp
qed

lemma map_fst_update:
  "i < length ts \<Longrightarrow> ts ! i = (objects, t) \<Longrightarrow> map fst (ts[i := (objects, t')]) = map fst ts"
  by (simp add: map_update list_update_same_conv)

lemma task_step_batches:
  "map fst (tasks (task_step del st i)) = map fst (tasks st)
   \<and> pc (task_step del st i) = pc st \<and> start (task_step del st i) = start st
   \<and> end' (task_step del st i) = end' st"
proof (cases "i < length (tasks st)")
  case False
  then show ?thesis by simp
next
  case True
  obtain objects t where ti: "tasks st ! i = (objects, t)" by (cases "tasks st ! i")
  from True ti show ?thesis
    by (cases t) (auto simp: map_fst_update split: option.splits failure.splits)
qed

lemma batch_inv_task:
  assumes "batch_inv list st"
  shows "batch_inv list (task_step del st i)"
proof -
  note t = task_step_batches [of del st i]
  from t have 1: "map fst (tasks (task_step del st i)) = map fst (tasks st)" by (rule conjunct1)
  from t have 2: "pc (task_step del st i) = pc st" by (elim conjE)
  from t have 3: "start (task_step del st i) = start st" by (elim conjE)
  from t have 4: "end' (task_step del st i) = end' st" by (elim conjE)
  from assms show ?thesis unfolding batch_inv_def 1 2 3 4 .
qed

lemma batch_inv_run: "batch_inv list st \<Longrightarrow> batch_inv list (run del list st sched)"
  by (induction sched arbitrary: st)
     (simp_all add: batch_inv_coord batch_inv_task del: coord_step.simps task_step.simps split: nat.splits)

lemma run_spawns_every_batch:
  assumes "pc (run del list init sched) = Returned r"
  shows "batches list 0 0 = Some (map fst (tasks (run del list init sched)))"
proof -
  have "batch_inv list (run del list init sched)" by (rule batch_inv_run [OF batch_inv_init])
  with assms show ?thesis by (auto simp: batch_inv_def batches_end split: option.splits)
qed

end
